theory Spec2Isabelle
  imports Main "HOL-Library.Multiset"
begin

section \<open>Data model\<close>

text \<open>
  A cell of a pandas table. \<open>read_csv\<close> produces strings, integers, floats and the
  missing-value marker; \<open>str.split(expand=True)\<close> pads short rows with \<open>None\<close>.
  No arithmetic is ever done on a float, so a float is carried by its printed form
  (what \<open>str\<close> returns for it); \<open>np.nan\<close> has a constructor of its own.
\<close>

datatype cell = is_Str: Str (the_str: string) | PyInt int | PyFloat string | NaN | PyNone

text \<open>The exceptions the code can raise, one constructor per kind and origin.\<close>

datatype error =
    KeyError              \<comment> \<open>a label that the table, row or dict does not have\<close>
  | AttributeError        \<comment> \<open>\<open>.split\<close> or \<open>.str\<close> on something that is not a string\<close>
  | TypeError             \<comment> \<open>\<open>+\<close> between a non-string cell and a string\<close>
  | ValueError            \<comment> \<open>joined tables share a column label\<close>
  | ListIndexError        \<comment> \<open>IndexError: list index out of range\<close>
  | IlocIndexError        \<comment> \<open>IndexError: single positional indexer is out-of-bounds\<close>
  | RequestError          \<comment> \<open>the HTTP call or the parsing of its body failed\<close>

text \<open>
  A DataFrame is its column labels and its rows, every row aligned with the labels.
  The index is positional throughout the program (\<open>read_csv\<close> gives a range index,
  every derived table keeps it, and \<open>expand_df\<close> ends with \<open>reset_index\<close>), so it
  is not stored. A Series taken from a row (\<open>iterrows\<close>) is the list of its
  labelled values. \<open>read_csv\<close> renames repeated labels, so labels are unique in every
  table the program loads; the lookup of one label takes its first occurrence, the
  selection of a list of labels takes every column that carries one of them.
\<close>

record dataframe =
  columns :: "string list"
  rows :: "cell list list"

type_synonym series = "(string \<times> cell) list"

text \<open>A parsed JSON object: a Python dict, in insertion order.\<close>

type_synonym 'v dict = "(string \<times> 'v) list"

section \<open>Python and pandas primitives\<close>

text \<open>
  \<open>s.split(sep)\<close>: never empty, keeps empty pieces. A separator is one character, as
  in every call of the program (\<open>=\<close>, \<open>;\<close> and the comma); there Python's \<open>split\<close> and
  pandas' \<open>str.split\<close> agree, a longer pattern being a regular expression to pandas.
\<close>

fun py_split :: "char \<Rightarrow> string \<Rightarrow> string list" where
  "py_split sep [] = [[]]"
| "py_split sep (c # cs) =
     (if c = sep then [] # py_split sep cs
      else (let pieces = py_split sep cs in (c # hd pieces) # tl pieces))"

text \<open>\<open>x.split(sep)\<close> on a cell: only a string has the method.\<close>

definition str_split :: "char \<Rightarrow> cell \<Rightarrow> error + string list" where
  "str_split sep x = (case x of Str s \<Rightarrow> Inr (py_split sep s) | _ \<Rightarrow> Inl AttributeError)"

text \<open>\<open>str(n)\<close> for an integer: decimal digits, a minus sign when negative.\<close>

definition digit_char :: "nat \<Rightarrow> char" where
  "digit_char d = ''0123456789'' ! d"

function str_nat :: "nat \<Rightarrow> string" where
  "str_nat n = (if n < 10 then [digit_char n] else str_nat (n div 10) @ [digit_char (n mod 10)])"
  by pat_completeness auto
termination
  by (relation "measure id") auto

declare str_nat.simps [simp del]

definition str_int :: "int \<Rightarrow> string" where
  "str_int i = (if i < 0 then CHR ''-'' # str_nat (nat (- i)) else str_nat (nat i))"

text \<open>\<open>str(x)\<close> on a cell.\<close>

fun py_str :: "cell \<Rightarrow> string" where
  "py_str (Str s) = s"
| "py_str (PyInt i) = str_int i"
| "py_str (PyFloat s) = s"
| "py_str NaN = ''nan''"
| "py_str PyNone = ''None''"

text \<open>Position of the first occurrence of a label.\<close>

fun index_of :: "'a \<Rightarrow> 'a list \<Rightarrow> nat option" where
  "index_of x [] = None"
| "index_of x (y # ys) = (if x = y then Some 0 else map_option Suc (index_of x ys))"

text \<open>\<open>d[k] = v\<close> on a dict and \<open>row[k] = v\<close> on a Series: an existing label keeps its
  place, a new one goes last.\<close>

fun assoc_set :: "(string \<times> 'v) list \<Rightarrow> string \<Rightarrow> 'v \<Rightarrow> (string \<times> 'v) list" where
  "assoc_set [] k v = [(k, v)]"
| "assoc_set ((l, x) # d) k v = (if l = k then (l, v) # d else (l, x) # assoc_set d k v)"

text \<open>\<open>d[k]\<close> and \<open>row[k]\<close>.\<close>

definition assoc_get :: "(string \<times> 'v) list \<Rightarrow> string \<Rightarrow> error + 'v" where
  "assoc_get d k = (case map_of d k of None \<Rightarrow> Inl KeyError | Some v \<Rightarrow> Inr v)"

text \<open>Mapping a function that may raise over a list: the first failure aborts.\<close>

fun map_err :: "('a \<Rightarrow> error + 'b) \<Rightarrow> 'a list \<Rightarrow> error + 'b list" where
  "map_err f [] = Inr []"
| "map_err f (x # xs) =
     (case f x of
        Inl e \<Rightarrow> Inl e
      | Inr y \<Rightarrow> (case map_err f xs of Inl e \<Rightarrow> Inl e | Inr ys \<Rightarrow> Inr (y # ys)))"

text \<open>\<open>df[c]\<close>: one column.\<close>

definition getcol :: "dataframe \<Rightarrow> string \<Rightarrow> error + cell list" where
  "getcol df c =
     (case index_of c (columns df) of
        None \<Rightarrow> Inl KeyError
      | Some i \<Rightarrow> Inr (map (\<lambda>r. r ! i) (rows df)))"


text \<open>\<open>df[[c1, ..., cn]]\<close>: the requested labels in the requested order, every column
  that carries a requested label; a label the table does not have is a KeyError.\<close>

definition positions :: "string \<Rightarrow> string list \<Rightarrow> nat list" where
  "positions c cs = [i \<leftarrow> [0..<length cs]. cs ! i = c]"

definition select_cols :: "dataframe \<Rightarrow> string list \<Rightarrow> error + dataframe" where
  "select_cols df cs =
     (if \<exists>c \<in> set cs. c \<notin> set (columns df) then Inl KeyError
      else Inr \<lparr>columns = concat (map (\<lambda>c. map (\<lambda>i. columns df ! i) (positions c (columns df))) cs),
                rows = map (\<lambda>r. concat (map (\<lambda>c. map (\<lambda>i. r ! i) (positions c (columns df))) cs))
                         (rows df)\<rparr>)"

text \<open>\<open>left.join(right)\<close> of two tables with the same index: the rows side by side.
  pandas refuses overlapping labels when no suffix is given.\<close>

definition df_join :: "dataframe \<Rightarrow> dataframe \<Rightarrow> error + dataframe" where
  "df_join left right =
     (if set (columns left) \<inter> set (columns right) \<noteq> {} then Inl ValueError
      else Inr \<lparr>columns = columns left @ columns right,
                rows = map (\<lambda>(l, r). l @ r) (zip (rows left) (rows right))\<rparr>)"

text \<open>Strings compare by code point, as Python compares them.\<close>

fun str_less :: "string \<Rightarrow> string \<Rightarrow> bool" where
  "str_less [] [] = False"
| "str_less [] (y # ys) = True"
| "str_less (x # xs) [] = False"
| "str_less (x # xs) (y # ys) =
     ((of_char x :: nat) < of_char y \<or> (x = y \<and> str_less xs ys))"

fun insort_str :: "string \<Rightarrow> string list \<Rightarrow> string list" where
  "insort_str x [] = [x]"
| "insort_str x (y # ys) = (if str_less y x then y # insort_str x ys else x # y # ys)"

definition sort_str :: "string list \<Rightarrow> string list" where
  "sort_str xs = foldr insort_str xs []"

text \<open>
  \<open>new_df.append(other)\<close> for a Series, as pandas 0.24 to 1.3 does it (the versions
  that have both \<open>Series.to_list\<close> and this \<open>append\<close>): the labels of \<open>other\<close> that the
  table lacks (\<open>Index.difference\<close>: unique and sorted) become new columns behind the
  old ones, old rows get NaN there, and \<open>other\<close> is re-indexed to the combined labels.
  Nothing downstream depends on the order of the new columns: \<open>write_output\<close>
  selects by label.
\<close>

definition reindex :: "series \<Rightarrow> string list \<Rightarrow> cell list" where
  "reindex other labels = map (\<lambda>l. case map_of other l of Some v \<Rightarrow> v | None \<Rightarrow> NaN) labels"

definition df_append :: "dataframe \<Rightarrow> series \<Rightarrow> dataframe" where
  "df_append new_df other =
     (let idx_diff = sort_str (remdups [l \<leftarrow> map fst other. l \<notin> set (columns new_df)]);
          combined_columns = columns new_df @ idx_diff
      in \<lparr>columns = combined_columns,
          rows = map (\<lambda>r. r @ replicate (length idx_diff) NaN) (rows new_df)
                 @ [reindex other combined_columns]\<rparr>)"

text \<open>\<open>zip(*xss)\<close>: tuples up to the length of the shortest list; none for no list.\<close>

definition zip_length :: "'a list list \<Rightarrow> nat" where
  "zip_length xss = (case xss of [] \<Rightarrow> 0 | xs # rest \<Rightarrow> fold min (map length rest) (length xs))"

definition py_zip :: "'a list list \<Rightarrow> 'a list list" where
  "py_zip xss = map (\<lambda>i. map (\<lambda>ys. ys ! i) xss) [0..<zip_length xss]"

section \<open>convert_col_to_df\<close>

text \<open>
  \<open>df[col].str.split(elem_sep, expand=True)\<close>: a column without any string has no
  \<open>.str\<close> accessor; a string cell becomes its pieces, padded with \<open>None\<close> to the
  widest row; a missing cell becomes a row of missing values.
\<close>

definition split_width :: "char \<Rightarrow> cell list \<Rightarrow> nat" where
  "split_width sep vals =
     fold max (map (\<lambda>v. case v of Str s \<Rightarrow> length (py_split sep s) | _ \<Rightarrow> 0) vals) 0"

definition expand_cell :: "char \<Rightarrow> nat \<Rightarrow> cell \<Rightarrow> cell list" where
  "expand_cell sep width v =
     (case v of
        Str s \<Rightarrow> map Str (py_split sep s) @ replicate (width - length (py_split sep s)) PyNone
      | _ \<Rightarrow> replicate width NaN)"

definition str_split_expand :: "char \<Rightarrow> cell list \<Rightarrow> error + cell list list" where
  "str_split_expand sep vals =
     (if vals \<noteq> [] \<and> \<not> (\<exists>v \<in> set vals. is_Str v) then Inl AttributeError
      else Inr (map (expand_cell sep (split_width sep vals)) vals))"

text \<open>\<open>item.split(key_value_sep)[0]\<close>: the split is never empty.\<close>

definition key_of :: "char \<Rightarrow> cell \<Rightarrow> error + string" where
  "key_of key_value_sep item =
     (case str_split key_value_sep item of Inl e \<Rightarrow> Inl e | Inr ps \<Rightarrow> Inr (hd ps))"

text \<open>\<open>lambda x: x.split(key_value_sep)[1]\<close>.\<close>

definition value_of :: "char \<Rightarrow> cell \<Rightarrow> error + cell" where
  "value_of key_value_sep x =
     (case str_split key_value_sep x of
        Inl e \<Rightarrow> Inl e
      | Inr ps \<Rightarrow> (if length ps < 2 then Inl ListIndexError else Inr (Str (ps ! 1))))"

text \<open>\<open>df.applymap(f)\<close> visits the cells column by column; the first cell on which \<open>f\<close>
  raises aborts the call. The result keeps the shape of the table.\<close>

definition applymap :: "(cell \<Rightarrow> error + cell) \<Rightarrow> cell list list \<Rightarrow> error + cell list list" where
  "applymap f rs =
     (case map_err (map_err f) (transpose rs) of
        Inl e \<Rightarrow> Inl e
      | Inr _ \<Rightarrow> map_err (map_err f) rs)"

definition convert_col_to_df :: "dataframe \<Rightarrow> string \<Rightarrow> char \<Rightarrow> char \<Rightarrow> error + dataframe" where
  "convert_col_to_df df col key_value_sep elem_sep =
     (case getcol df col of
        Inl e \<Rightarrow> Inl e
      | Inr vals \<Rightarrow>
     (case str_split_expand elem_sep vals of
        Inl e \<Rightarrow> Inl e
      | Inr split_rows \<Rightarrow>
     (case split_rows of
        [] \<Rightarrow> Inl IlocIndexError
      | key_values # _ \<Rightarrow>
     (case map_err (key_of key_value_sep) key_values of
        Inl e \<Rightarrow> Inl e
      | Inr header \<Rightarrow>
     (case applymap (value_of key_value_sep) split_rows of
        Inl e \<Rightarrow> Inl e
      | Inr cells \<Rightarrow> Inr \<lparr>columns = header, rows = cells\<rparr>)))))"

section \<open>expand_df\<close>

text \<open>The loop \<open>for column in columns: columns_dict[column] = row[column].split(sep)\<close>.\<close>

fun build_columns_dict ::
  "series \<Rightarrow> char \<Rightarrow> string list \<Rightarrow> string list dict \<Rightarrow> error + string list dict" where
  "build_columns_dict row sep [] columns_dict = Inr columns_dict"
| "build_columns_dict row sep (column # cs) columns_dict =
     (case assoc_get row column of
        Inl e \<Rightarrow> Inl e
      | Inr x \<Rightarrow>
     (case str_split sep x of
        Inl e \<Rightarrow> Inl e
      | Inr parts \<Rightarrow> build_columns_dict row sep cs (assoc_set columns_dict column parts)))"

text \<open>The loop \<open>for counter, column in enumerate(columns_dict.keys()): row[column] = item[counter]\<close>.\<close>

definition assign_item :: "series \<Rightarrow> string list \<Rightarrow> string list \<Rightarrow> series" where
  "assign_item row keys item =
     fold (\<lambda>(counter, column) r. assoc_set r column (Str (item ! counter))) (enumerate 0 keys) row"

text \<open>\<open>row.apply(str)\<close>.\<close>

definition series_apply_str :: "series \<Rightarrow> series" where
  "series_apply_str row = map (\<lambda>(l, x). (l, Str (py_str x))) row"

text \<open>The loop \<open>for item in zipped\<close>: the row object is overwritten from one item to the
  next, and its string form is appended to the new table each time.\<close>

fun emit_items ::
  "string list \<Rightarrow> string list list \<Rightarrow> series \<times> dataframe \<Rightarrow> series \<times> dataframe" where
  "emit_items keys [] (row, new_df) = (row, new_df)"
| "emit_items keys (item # items) (row, new_df) =
     (let row' = assign_item row keys item
      in emit_items keys items (row', df_append new_df (series_apply_str row')))"

text \<open>The loop \<open>for name, row in df.iterrows()\<close>.\<close>

fun expand_rows ::
  "string list \<Rightarrow> string list \<Rightarrow> char \<Rightarrow> cell list list \<Rightarrow> dataframe \<Rightarrow> error + dataframe" where
  "expand_rows labels cols sep [] new_df = Inr new_df"
| "expand_rows labels cols sep (r # rs) new_df =
     (case build_columns_dict (zip labels r) sep cols [] of
        Inl e \<Rightarrow> Inl e
      | Inr columns_dict \<Rightarrow>
          expand_rows labels cols sep rs
            (snd (emit_items (map fst columns_dict) (py_zip (map snd columns_dict))
                    (zip labels r, new_df))))"

definition expand_df :: "dataframe \<Rightarrow> string list \<Rightarrow> char \<Rightarrow> error + dataframe" where
  "expand_df df cols sep =
     expand_rows (columns df) cols sep (rows df) \<lparr>columns = cols, rows = []\<rparr>"

section \<open>subset_vcf\<close>

definition subset_vcf :: "dataframe \<Rightarrow> error + dataframe" where
  "subset_vcf df =
     (case convert_col_to_df df ''INFO'' (CHR ''='') (CHR '';'') of
        Inl e \<Rightarrow> Inl e
      | Inr info0 \<Rightarrow>
     (case select_cols info0 [''DP'', ''AO'', ''AF'', ''TYPE''] of
        Inl e \<Rightarrow> Inl e
      | Inr info \<Rightarrow>
     (case select_cols df [''#CHROM'', ''POS'', ''REF'', ''ALT''] of
        Inl e \<Rightarrow> Inl e
      | Inr df1 \<Rightarrow>
     (case df_join df1 info of
        Inl e \<Rightarrow> Inl e
      | Inr df2 \<Rightarrow> expand_df df2 [''TYPE'', ''ALT'', ''AF''] (CHR '','')))))"

section \<open>build_cprv_col\<close>




section \<open>The remote lookup\<close>

text \<open>
  The ExAC service is outside the program: it is a parameter, a function from the
  posted list of keys to the parsed JSON body (a dict of dicts) or a failure of the
  request.
\<close>

type_synonym json_response = "cell dict dict"


text \<open>The loop over \<open>json_response.values()\<close>; a dict lookup raises nothing but KeyError,
  which the \<open>except\<close> clause turns into \<open>np.nan\<close>.\<close>

fun get_allele_freqs :: "json_response \<Rightarrow> cell list" where
  "get_allele_freqs [] = []"
| "get_allele_freqs ((k, item) # rest) =
     (case assoc_get item ''allele_freq'' of
        Inr allele_freq \<Rightarrow> allele_freq # get_allele_freqs rest
      | Inl e \<Rightarrow> NaN # get_allele_freqs rest)"

definition get_cprv :: "json_response \<Rightarrow> string list" where
  "get_cprv json_response = map fst json_response"

section \<open>get_exac_data\<close>







section \<open>write_output\<close>

text \<open>\<open>sep.join(xs)\<close>.\<close>

fun py_join :: "string \<Rightarrow> string list \<Rightarrow> string" where
  "py_join sep [] = []"
| "py_join sep [x] = x"
| "py_join sep (x # y # ys) = x @ sep @ py_join sep (y # ys)"



section \<open>Re-encoding, as the specification words it\<close>

text \<open>
  The program has no encoder. This one follows the specification's decode invariant:
  the decoded cells of a row are written back as \<open>key=value\<close> elements, with the same
  two separators and the keys in the order of the decoded table's columns.
\<close>

definition encode_row :: "char \<Rightarrow> char \<Rightarrow> string list \<Rightarrow> cell list \<Rightarrow> string" where
  "encode_row key_value_sep elem_sep keys cells =
     py_join [elem_sep] (map (\<lambda>(k, x). k @ [key_value_sep] @ py_str x) (zip keys cells))"

section \<open>Reading a table by label\<close>

text \<open>The cell of row \<open>r\<close> under label \<open>l\<close>, in a table with the given labels (NaN where the
  table has no such label, as re-indexing gives).\<close>

definition cell_of :: "string list \<Rightarrow> cell list \<Rightarrow> string \<Rightarrow> cell" where
  "cell_of labels r l = (case map_of (zip labels r) l of Some x \<Rightarrow> x | None \<Rightarrow> NaN)"

section \<open>What expansion is to produce\<close>

text \<open>The pieces of the cell under label \<open>c\<close>.\<close>

definition split_of :: "string list \<Rightarrow> char \<Rightarrow> cell list \<Rightarrow> string \<Rightarrow> string list" where
  "split_of labels sep r c = py_split sep (the_str (cell_of labels r c))"

text \<open>Cell \<open>l\<close> of the \<open>i\<close>-th row emitted for source row \<open>r\<close>: the \<open>i\<close>-th piece in an
  expandable column, the string form of the source cell in any other column.\<close>

definition expansion ::
  "string list \<Rightarrow> string list \<Rightarrow> char \<Rightarrow> cell list \<Rightarrow> nat \<Rightarrow> string \<Rightarrow> cell" where
  "expansion labels cols sep r i l =
     (if l \<in> set cols then Str (split_of labels sep r l ! i)
      else Str (py_str (cell_of labels r l)))"

text \<open>The first \<open>k\<close> rows emitted for source row \<open>r\<close>, laid out along \<open>out_labels\<close>.\<close>

definition row_block ::
  "string list \<Rightarrow> string list \<Rightarrow> char \<Rightarrow> string list \<Rightarrow> cell list \<Rightarrow> nat \<Rightarrow> cell list list" where
  "row_block labels cols sep out_labels r k =
     map (\<lambda>i. map (expansion labels cols sep r i) out_labels) [0..<k]"

text \<open>The row appended for one item of the zip, laid out along \<open>labels\<close>: an assigned
  column holds its element of the item, any other the string form of the cell of the
  row as it was read.\<close>

definition item_row :: "series \<Rightarrow> string list \<Rightarrow> string list \<Rightarrow> string list \<Rightarrow> cell list" where
  "item_row row0 keys labels item =
     map (\<lambda>l. case index_of l keys of
                 Some j \<Rightarrow> Str (item ! j)
               | None \<Rightarrow> (case map_of row0 l of Some x \<Rightarrow> Str (py_str x) | None \<Rightarrow> NaN)) labels"

text \<open>
  The tables on which \<open>expand_df\<close> raises nothing: unique labels, rows as long as the
  labels, at least one expandable column, each of them a column of the table, no
  column named twice, and a string in every expandable cell.
\<close>

definition expandable :: "dataframe \<Rightarrow> string list \<Rightarrow> bool" where
  "expandable df cols \<longleftrightarrow>
     distinct (columns df) \<and> (\<forall>r \<in> set (rows df). length r = length (columns df)) \<and>
     distinct cols \<and> cols \<noteq> [] \<and> set cols \<subseteq> set (columns df) \<and>
     (\<forall>r \<in> set (rows df). \<forall>c \<in> set cols. is_Str (cell_of (columns df) r c))"

section \<open>What the key and the merge are to produce\<close>







section \<open>Well-formed packed strings\<close>

text \<open>Every element of every packed string of the column contains the key-value
  separator.\<close>

definition all_elements_keyed :: "char \<Rightarrow> char \<Rightarrow> cell list \<Rightarrow> bool" where
  "all_elements_keyed key_value_sep elem_sep vals \<longleftrightarrow>
     (\<forall>v \<in> set vals. case v of
                        Str s \<Rightarrow> (\<forall>e \<in> set (py_split elem_sep s). key_value_sep \<in> set e)
                      | _ \<Rightarrow> True)"

text \<open>The packed string \<open>s\<close> lists exactly the keys \<open>keys\<close>, in this order, and each of its
  elements holds the key-value separator exactly once (it splits in two).\<close>

definition well_keyed :: "char \<Rightarrow> char \<Rightarrow> string list \<Rightarrow> string \<Rightarrow> bool" where
  "well_keyed key_value_sep elem_sep keys s \<longleftrightarrow>
     list_all (\<lambda>e. length (py_split key_value_sep e) = 2) (py_split elem_sep s)
     \<and> map (\<lambda>e. hd (py_split key_value_sep e)) (py_split elem_sep s) = keys"

section \<open>Column selection\<close>




section \<open>The multi-allelic scenario\<close>

text \<open>
  C1. The input row CHROM=1, POS=100, REF=A, ALT=T,G with INFO
  DP=50;AO=20,5;AF=0.4,0.1;TYPE=snp,snp goes through decoding, projection and
  expansion (\<open>subset_vcf\<close>). The result has two rows; read in the order #CHROM, POS,
  REF, ALT, TYPE, DP, AO, AF they are (1,100,A,T,snp,50,"20,5",0.4) and
  (1,100,A,G,snp,50,"20,5",0.1): \<open>expand_df\<close> is called with TYPE, ALT and AF only, so
  the observation count AO keeps the joined string 20,5 in both rows instead of the
  per-allele values 20 and 5.
\<close>

theorem subset_vcf_multi_allelic:
  "subset_vcf
     \<lparr>columns = [''#CHROM'', ''POS'', ''REF'', ''ALT'', ''INFO''],
      rows = [[PyInt 1, PyInt 100, Str ''A'', Str ''T,G'',
               Str ''DP=50;AO=20,5;AF=0.4,0.1;TYPE=snp,snp'']]\<rparr>
   = Inr \<lparr>columns = [''TYPE'', ''ALT'', ''AF'', ''#CHROM'', ''AO'', ''DP'', ''POS'', ''REF''],
           rows = [[Str ''snp'', Str ''T'', Str ''0.4'', Str ''1'', Str ''20,5'', Str ''50'',
                    Str ''100'', Str ''A''],
                   [Str ''snp'', Str ''G'', Str ''0.1'', Str ''1'', Str ''20,5'', Str ''50'',
                    Str ''100'', Str ''A'']]\<rparr>
   \<and> select_cols
       \<lparr>columns = [''TYPE'', ''ALT'', ''AF'', ''#CHROM'', ''AO'', ''DP'', ''POS'', ''REF''],
        rows = [[Str ''snp'', Str ''T'', Str ''0.4'', Str ''1'', Str ''20,5'', Str ''50'',
                 Str ''100'', Str ''A''],
                [Str ''snp'', Str ''G'', Str ''0.1'', Str ''1'', Str ''20,5'', Str ''50'',
                 Str ''100'', Str ''A'']]\<rparr>
       [''#CHROM'', ''POS'', ''REF'', ''ALT'', ''TYPE'', ''DP'', ''AO'', ''AF'']
   = Inr \<lparr>columns = [''#CHROM'', ''POS'', ''REF'', ''ALT'', ''TYPE'', ''DP'', ''AO'', ''AF''],
           rows = [[Str ''1'', Str ''100'', Str ''A'', Str ''T'', Str ''snp'', Str ''50'',
                    Str ''20,5'', Str ''0.4''],
                   [Str ''1'', Str ''100'', Str ''A'', Str ''G'', Str ''snp'', Str ''50'',
                    Str ''20,5'', Str ''0.1'']]\<rparr>"
  by code_simp

section \<open>The lookup response\<close>

text \<open>
  C8. For every parsed response (a dict whose values are dicts), the extracted
  frequencies and the extracted keys have the same length and are aligned: entry i of
  the frequencies is the \<open>allele_freq\<close> field of the entry of key i when that entry has
  the field, and the marker NaN when it has not. \<open>get_allele_freqs\<close> returns a plain
  list: a missing field is no error.
\<close>

theorem get_allele_freqs_aligned:
  "zip (get_cprv json_response) (get_allele_freqs json_response) =
     map (\<lambda>(k, item). (k, case map_of item ''allele_freq'' of Some f \<Rightarrow> f | None \<Rightarrow> NaN))
       json_response
   \<and> length (get_allele_freqs json_response) = length (get_cprv json_response)"
  by (induction json_response rule: get_allele_freqs.induct)
     (auto simp: get_cprv_def assoc_get_def split: option.splits)

section \<open>The column order of the output\<close>



section \<open>Lemmas on labelled lists\<close>

lemma index_of_None: "index_of x xs = None \<longleftrightarrow> x \<notin> set xs"
  by (induction xs) auto

lemma index_of_Some: "index_of x xs = Some j \<Longrightarrow> j < length xs \<and> xs ! j = x"
  by (induction xs arbitrary: j) (auto split: if_splits)

lemma map_of_assoc_set: "map_of (assoc_set d k v) = (map_of d)(k \<mapsto> v)"
  by (induction d k v rule: assoc_set.induct) auto

lemma fst_assoc_set: "k \<in> fst ` set d \<Longrightarrow> map fst (assoc_set d k v) = map fst d"
  by (induction d k v rule: assoc_set.induct) auto

lemma assoc_set_append: "k \<notin> fst ` set d \<Longrightarrow> assoc_set d k v = d @ [(k, v)]"
  by (induction d k v rule: assoc_set.induct) auto

lemma build_columns_dict_closed:
  assumes "distinct cs" and "set cs \<inter> fst ` set d = {}"
    and "\<forall>c \<in> set cs. \<exists>s. map_of row c = Some (Str s)"
  shows "build_columns_dict row sep cs d =
           Inr (d @ map (\<lambda>c. (c, py_split sep (the_str (the (map_of row c))))) cs)"
  using assms
proof (induction cs arbitrary: d)
  case Nil
  then show ?case by simp
next
  case (Cons c cs)
  from Cons.prems(3) obtain s where s: "map_of row c = Some (Str s)" by auto
  from Cons.prems(2) have notin: "c \<notin> fst ` set d" by auto
  let ?d = "assoc_set d c (py_split sep s)"
  have d': "?d = d @ [(c, py_split sep s)]" using notin by (rule assoc_set_append)
  have "set cs \<inter> fst ` set ?d = {}" using Cons.prems(1,2) by (auto simp: d')
  with Cons.IH[of ?d] Cons.prems
  have "build_columns_dict row sep cs ?d =
          Inr (?d @ map (\<lambda>c. (c, py_split sep (the_str (the (map_of row c))))) cs)"
    by auto
  then show ?case using s by (simp add: assoc_get_def str_split_def d')
qed

lemma fst_assign_fold:
  "set ks \<subseteq> fst ` set r \<Longrightarrow>
   map fst (fold (\<lambda>(counter, column) r. assoc_set r column (Str (item ! counter)))
              (enumerate n ks) r) = map fst r"
proof (induction ks arbitrary: n r)
  case Nil
  then show ?case by simp
next
  case (Cons k ks)
  have "map fst (assoc_set r k (Str (item ! n))) = map fst r"
    using Cons.prems by (simp add: fst_assoc_set)
  moreover from this have "set ks \<subseteq> fst ` set (assoc_set r k (Str (item ! n)))"
    using Cons.prems by (metis list.set_map set_subset_Cons subset_trans)
  ultimately show ?case using Cons.IH[of "assoc_set r k (Str (item ! n))" "Suc n"] by simp
qed

lemma map_of_assign_fold:
  "distinct ks \<Longrightarrow>
   map_of (fold (\<lambda>(counter, column) r. assoc_set r column (Str (item ! counter)))
             (enumerate n ks) r) l =
     (case index_of l ks of Some j \<Rightarrow> Some (Str (item ! (n + j))) | None \<Rightarrow> map_of r l)"
proof (induction ks arbitrary: n r)
  case Nil
  then show ?case by simp
next
  case (Cons k ks)
  then have d: "distinct ks" and k: "k \<notin> set ks" by auto
  show ?case
  proof (cases "l = k")
    case True
    with k have "index_of l ks = None" by (simp add: index_of_None)
    with True show ?thesis using Cons.IH[OF d, of "Suc n"] by (simp add: map_of_assoc_set)
  next
    case False
    then show ?thesis using Cons.IH[OF d, of "Suc n"]
      by (auto simp: map_of_assoc_set split: option.splits)
  qed
qed

lemma fst_assign_item:
  "set keys \<subseteq> fst ` set row \<Longrightarrow> map fst (assign_item row keys item) = map fst row"
  unfolding assign_item_def by (rule fst_assign_fold)

lemma map_of_assign_item:
  "distinct keys \<Longrightarrow>
   map_of (assign_item row keys item) l =
     (case index_of l keys of Some j \<Rightarrow> Some (Str (item ! j)) | None \<Rightarrow> map_of row l)"
  unfolding assign_item_def by (simp add: map_of_assign_fold split: option.splits)

lemma map_of_series_apply_str:
  "map_of (series_apply_str row) l = map_option (\<lambda>x. Str (py_str x)) (map_of row l)"
  unfolding series_apply_str_def by (induction row) auto

lemma fst_series_apply_str: "map fst (series_apply_str row) = map fst row"
  unfolding series_apply_str_def by (induction row) auto

lemma set_insort_str: "set (insort_str x xs) = insert x (set xs)"
  by (induction xs) auto

lemma set_sort_str: "set (sort_str xs) = set xs"
  unfolding sort_str_def by (induction xs) (auto simp: set_insort_str)

lemma length_insort_str: "length (insort_str x xs) = Suc (length xs)"
  by (induction xs) auto

lemma distinct_insort_str: "distinct (insort_str x xs) = (x \<notin> set xs \<and> distinct xs)"
  by (induction xs) (auto simp: set_insort_str)

lemma distinct_sort_str: "distinct xs \<Longrightarrow> distinct (sort_str xs)"
  unfolding sort_str_def
  by (induction xs) (auto simp: distinct_insort_str set_sort_str[unfolded sort_str_def])

lemma df_append_closed:
  assumes L: "map fst other = L" "distinct L"
    and C: "C = cols @ sort_str [l \<leftarrow> L. l \<notin> set cols]"
    and inv: "columns new_df = C \<or> (columns new_df = cols \<and> rows new_df = [])"
  shows "df_append new_df other = \<lparr>columns = C, rows = rows new_df @ [reindex other C]\<rparr>"
proof -
  from inv show ?thesis
  proof
    assume c: "columns new_df = C"
    have "set L \<subseteq> set C" by (auto simp: C set_sort_str)
    then have "[l \<leftarrow> L. l \<notin> set C] = []" by (auto simp: filter_empty_conv)
    then show ?thesis by (simp add: df_append_def L c sort_str_def)
  next
    assume c: "columns new_df = cols \<and> rows new_df = []"
    have "distinct [l \<leftarrow> L. l \<notin> set cols]" using L(2) by simp
    then show ?thesis by (simp add: df_append_def L c C Let_def distinct_remdups_id)
  qed
qed

lemma reindex_item_row:
  assumes "distinct keys"
    and "\<forall>l. l \<notin> set keys \<longrightarrow> map_of row l = map_of row0 l"
  shows "reindex (series_apply_str (assign_item row keys item)) labels
           = item_row row0 keys labels item"
  unfolding reindex_def item_row_def
proof (rule map_cong[OF refl])
  fix l
  show "(case map_of (series_apply_str (assign_item row keys item)) l of
           Some v \<Rightarrow> v | None \<Rightarrow> NaN) =
        (case index_of l keys of
           Some j \<Rightarrow> Str (item ! j)
         | None \<Rightarrow> (case map_of row0 l of Some x \<Rightarrow> Str (py_str x) | None \<Rightarrow> NaN))"
  proof (cases "index_of l keys")
    case None
    then have "l \<notin> set keys" by (simp add: index_of_None)
    with assms(2) have "map_of row l = map_of row0 l" by simp
    with None show ?thesis
      by (simp add: map_of_series_apply_str map_of_assign_item[OF assms(1)] split: option.splits)
  next
    case (Some j)
    then show ?thesis
      by (simp add: map_of_series_apply_str map_of_assign_item[OF assms(1)])
  qed
qed

lemma emit_items_closed:
  assumes "distinct keys" and "set keys \<subseteq> set L" and "distinct L"
    and C: "C = cols @ sort_str [l \<leftarrow> L. l \<notin> set cols]"
  shows "map fst row = L \<Longrightarrow>
         (\<forall>l. l \<notin> set keys \<longrightarrow> map_of row l = map_of row0 l) \<Longrightarrow>
         columns new_df = C \<or> (columns new_df = cols \<and> rows new_df = []) \<Longrightarrow>
         snd (emit_items keys items (row, new_df)) =
           (if items = [] then new_df
            else \<lparr>columns = C, rows = rows new_df @ map (item_row row0 keys C) items\<rparr>)"
proof (induction items arbitrary: row new_df)
  case Nil
  then show ?case by simp
next
  case (Cons item items)
  let ?row = "assign_item row keys item"
  let ?new = "df_append new_df (series_apply_str ?row)"
  have keys_in: "set keys \<subseteq> fst ` set row" using assms(2) Cons.prems(1) by (metis list.set_map)
  have fst_row: "map fst ?row = L" using Cons.prems(1) keys_in by (simp add: fst_assign_item)
  have agree: "\<forall>l. l \<notin> set keys \<longrightarrow> map_of ?row l = map_of row0 l"
    using Cons.prems(2) by (simp add: map_of_assign_item[OF assms(1)] index_of_None[THEN iffD2])
  have new: "?new = \<lparr>columns = C, rows = rows new_df @ [item_row row0 keys C item]\<rparr>"
    using df_append_closed[OF _ assms(3) C Cons.prems(3), of "series_apply_str ?row"]
      fst_row reindex_item_row[OF assms(1) Cons.prems(2)]
    by (simp add: fst_series_apply_str)
  have "snd (emit_items keys items (?row, ?new)) =
          (if items = [] then ?new
           else \<lparr>columns = C, rows = rows ?new @ map (item_row row0 keys C) items\<rparr>)"
    by (rule Cons.IH[OF fst_row agree]) (simp add: new)
  then show ?case by (simp add: new Let_def)
qed

lemma zip_length_Min: "xss \<noteq> [] \<Longrightarrow> zip_length xss = Min (length ` set xss)"
  by (cases xss) (simp_all add: zip_length_def Min.set_eq_fold[symmetric])

lemma zip_length_pos: "xss \<noteq> [] \<Longrightarrow> \<forall>xs \<in> set xss. xs \<noteq> [] \<Longrightarrow> 0 < zip_length xss"
  by (simp add: zip_length_Min)

lemma py_split_nonempty: "py_split sep s \<noteq> []"
  by (induction s) (auto simp: Let_def)

lemma map_of_zip_cell_of:
  "length r = length labels \<Longrightarrow> l \<in> set labels \<Longrightarrow>
   map_of (zip labels r) l = Some (cell_of labels r l)"
  unfolding cell_of_def
  by (cases "map_of (zip labels r) l") (auto simp: map_of_zip_is_None)

lemma item_row_expansion:
  assumes len: "length r = length labels" and dc: "distinct cols"
    and sub: "set cols \<subseteq> set labels" and C: "set C \<subseteq> set labels"
  shows "item_row (zip labels r) cols C (map (\<lambda>ys. ys ! i) (map (split_of labels sep r) cols))
           = map (expansion labels cols sep r i) C"
  unfolding item_row_def
proof (rule map_cong[OF refl])
  fix l assume l: "l \<in> set C"
  show "(case index_of l cols of
           Some j \<Rightarrow> Str (map (\<lambda>ys. ys ! i) (map (split_of labels sep r) cols) ! j)
         | None \<Rightarrow> (case map_of (zip labels r) l of Some x \<Rightarrow> Str (py_str x) | None \<Rightarrow> NaN))
        = expansion labels cols sep r i l"
  proof (cases "index_of l cols")
    case None
    then have "l \<notin> set cols" by (simp add: index_of_None)
    moreover have "map_of (zip labels r) l = Some (cell_of labels r l)"
      using l C len by (auto intro: map_of_zip_cell_of)
    ultimately show ?thesis using None by (simp add: expansion_def)
  next
    case (Some j)
    from index_of_Some[OF Some] have j: "j < length cols" "cols ! j = l" by auto
    then have "l \<in> set cols" by auto
    with Some j show ?thesis by (simp add: expansion_def)
  qed
qed

lemma expand_rows_closed:
  assumes dl: "distinct labels" and dc: "distinct cols" and ne: "cols \<noteq> []"
    and sub: "set cols \<subseteq> set labels"
    and C: "C = cols @ sort_str [l \<leftarrow> labels. l \<notin> set cols]"
  shows "(\<forall>r \<in> set rs. length r = length labels) \<Longrightarrow>
         (\<forall>r \<in> set rs. \<forall>c \<in> set cols. is_Str (cell_of labels r c)) \<Longrightarrow>
         columns new_df = C \<or> (columns new_df = cols \<and> rows new_df = []) \<Longrightarrow>
         expand_rows labels cols sep rs new_df =
           Inr \<lparr>columns = (if rs = [] then columns new_df else C),
                rows = rows new_df @
                  concat (map (\<lambda>r. map (\<lambda>i. map (expansion labels cols sep r i) C)
                                     [0..<zip_length (map (split_of labels sep r) cols)]) rs)\<rparr>"
proof (induction rs arbitrary: new_df)
  case Nil
  then show ?case by simp
next
  case (Cons r rs)
  let ?row = "zip labels r"
  let ?P = "split_of labels sep r"
  let ?items = "py_zip (map ?P cols)"
  from Cons.prems(1) have len: "length r = length labels" by simp
  have fst_row: "map fst ?row = labels" using len by simp
  have strs: "\<forall>c \<in> set cols. \<exists>s. map_of ?row c = Some (Str s)"
  proof
    fix c assume c: "c \<in> set cols"
    with sub have "map_of ?row c = Some (cell_of labels r c)"
      using len by (auto intro: map_of_zip_cell_of)
    moreover from Cons.prems(2) c have "is_Str (cell_of labels r c)" by simp
    ultimately show "\<exists>s. map_of ?row c = Some (Str s)" by (auto simp: is_Str_def)
  qed
  have same: "map (\<lambda>c. (c, py_split sep (the_str (the (map_of ?row c))))) cols
                = map (\<lambda>c. (c, ?P c)) cols"
  proof (rule map_cong[OF refl])
    fix c assume "c \<in> set cols"
    with sub have "map_of ?row c = Some (cell_of labels r c)"
      using len by (auto intro: map_of_zip_cell_of)
    then show "(c, py_split sep (the_str (the (map_of ?row c)))) = (c, ?P c)"
      by (simp add: split_of_def)
  qed
  have dict: "build_columns_dict ?row sep cols [] = Inr (map (\<lambda>c. (c, ?P c)) cols)"
    using build_columns_dict_closed[OF dc _ strs, of "[]" sep] same by simp
  have keys: "map fst (map (\<lambda>c. (c, ?P c)) cols) = cols"
    and vals: "map snd (map (\<lambda>c. (c, ?P c)) cols) = map ?P cols"
    by (simp_all add: comp_def)
  have pos: "0 < zip_length (map ?P cols)"
    using ne by (intro zip_length_pos) (auto simp: split_of_def py_split_nonempty)
  then have items_ne: "?items \<noteq> []" by (simp add: py_zip_def)
  let ?new = "snd (emit_items cols ?items (?row, new_df))"
  have Csub: "set C \<subseteq> set labels" using sub by (auto simp: C set_sort_str)
  have emitted: "map (item_row ?row cols C) ?items
      = map (\<lambda>i. map (expansion labels cols sep r i) C) [0..<zip_length (map ?P cols)]"
    using item_row_expansion[OF len dc sub Csub, where sep = sep]
    by (simp add: py_zip_def comp_def)
  have new: "?new = \<lparr>columns = C, rows = rows new_df @
       map (\<lambda>i. map (expansion labels cols sep r i) C) [0..<zip_length (map ?P cols)]\<rparr>"
    using emit_items_closed[OF dc sub dl C fst_row _ Cons.prems(3), of ?row ?items] items_ne emitted
    by simp
  have "expand_rows labels cols sep rs ?new =
          Inr \<lparr>columns = (if rs = [] then columns ?new else C),
               rows = rows ?new @
                 concat (map (\<lambda>r. map (\<lambda>i. map (expansion labels cols sep r i) C)
                                    [0..<zip_length (map (split_of labels sep r) cols)]) rs)\<rparr>"
    using Cons.prems(1,2) by (intro Cons.IH) (simp_all add: new)
  moreover have "expand_rows labels cols sep (r # rs) new_df = expand_rows labels cols sep rs ?new"
    by (simp only: expand_rows.simps dict sum.case keys vals)
  moreover have "columns ?new = C" "rows ?new = rows new_df @
       map (\<lambda>i. map (expansion labels cols sep r i) C) [0..<zip_length (map ?P cols)]"
    by (simp_all add: new)
  ultimately show ?case by simp
qed

lemma expand_df_closed:
  assumes "distinct (columns df)" and "\<forall>r \<in> set (rows df). length r = length (columns df)"
    and "distinct cols" and "cols \<noteq> []" and "set cols \<subseteq> set (columns df)"
    and "\<forall>r \<in> set (rows df). \<forall>c \<in> set cols. is_Str (cell_of (columns df) r c)"
  shows "expand_df df cols sep =
           Inr \<lparr>columns = (if rows df = [] then cols
                            else cols @ sort_str [l \<leftarrow> columns df. l \<notin> set cols]),
                rows = concat (map (\<lambda>r.
                         map (\<lambda>i. map (expansion (columns df) cols sep r i)
                                    (cols @ sort_str [l \<leftarrow> columns df. l \<notin> set cols]))
                           [0..<zip_length (map (split_of (columns df) sep r) cols)]) (rows df))\<rparr>"
  unfolding expand_df_def
  using expand_rows_closed[OF assms(1,3,4,5) refl assms(2,6),
      of "\<lparr>columns = cols, rows = []\<rparr>" sep]
  by simp

lemma expand_df_blocks:
  assumes "expandable df cols"
  shows "\<exists>out. expand_df df cols sep = Inr out
      \<and> columns out = (if rows df = [] then cols
                        else cols @ sort_str [l \<leftarrow> columns df. l \<notin> set cols])
      \<and> rows out = concat (map (\<lambda>r. row_block (columns df) cols sep (columns out) r
                                 (zip_length (map (split_of (columns df) sep r) cols))) (rows df))"
proof (cases "rows df = []")
  case True
  with assms show ?thesis
    using expand_df_closed[of df cols sep] by (simp add: expandable_def)
next
  case False
  with assms show ?thesis
    using expand_df_closed[of df cols sep] by (simp add: expandable_def row_block_def)
qed

lemma zip_length_same:
  assumes "cols \<noteq> []" and "\<forall>c \<in> set cols. length (f c) = k"
  shows "zip_length (map f cols) = k"
proof -
  have "length ` set (map f cols) = {k}" using assms by (cases cols) auto
  then show ?thesis using assms(1) by (simp add: zip_length_Min)
qed

lemma py_split_no_sep: "sep \<notin> set s \<Longrightarrow> py_split sep s = [s]"
  by (induction s) (auto simp: Let_def)

lemma expanded_columns:
  assumes "distinct labels" and "distinct cols" and "set cols \<subseteq> set labels"
  shows "set (cols @ sort_str [l \<leftarrow> labels. l \<notin> set cols]) = set labels"
    and "distinct (cols @ sort_str [l \<leftarrow> labels. l \<notin> set cols])"
  using assms by (auto simp: set_sort_str distinct_sort_str)

section \<open>Expansion: how many rows, which cells, which order\<close>

text \<open>
  C3. On every table that \<open>expand_df\<close> accepts, the output is the concatenation, in the
  order of the source rows, of one block per source row; the block of row \<open>r\<close> has as
  many rows as the zip of its split sequences, in split order; its \<open>i\<close>-th row holds
  the \<open>i\<close>-th piece in every expandable column and the source cell, in its string
  form (the very text for a string cell), in every other column. For every source
  row whose expandable columns all split into \<open>k\<close> pieces the block has exactly \<open>k\<close>
  rows.
\<close>

theorem expand_df_cardinality:
  assumes "expandable df cols"
  shows "\<exists>out. expand_df df cols sep = Inr out
      \<and> columns out = (if rows df = [] then cols
                        else cols @ sort_str [l \<leftarrow> columns df. l \<notin> set cols])
      \<and> rows out = concat (map (\<lambda>r. row_block (columns df) cols sep (columns out) r
                                 (zip_length (map (split_of (columns df) sep r) cols))) (rows df))
      \<and> (\<forall>r \<in> set (rows df). \<forall>k.
            (\<forall>c \<in> set cols. length (split_of (columns df) sep r c) = k) \<longrightarrow>
            zip_length (map (split_of (columns df) sep r) cols) = k)"
proof -
  from assms have ne: "cols \<noteq> []" by (simp add: expandable_def)
  from expand_df_blocks[OF assms, of sep] zip_length_same[OF ne]
  show ?thesis by blast
qed

theorem expand_df_cardinality_witness:
  "expand_df
     \<lparr>columns = [''POS'', ''ALT'', ''AF''],
      rows = [[PyInt 100, Str ''T,G'', Str ''0.4,0.1''], [PyInt 7, Str ''C'', Str ''0.5'']]\<rparr>
     [''ALT'', ''AF''] (CHR '','')
   = Inr \<lparr>columns = [''ALT'', ''AF'', ''POS''],
           rows = [[Str ''T'', Str ''0.4'', Str ''100''], [Str ''G'', Str ''0.1'', Str ''100''],
                   [Str ''C'', Str ''0.5'', Str ''7'']]\<rparr>"
proof -
  let ?df = "\<lparr>columns = [''POS'', ''ALT'', ''AF''],
      rows = [[PyInt 100, Str ''T,G'', Str ''0.4,0.1''], [PyInt 7, Str ''C'', Str ''0.5'']]\<rparr>"
  have e: "expandable ?df [''ALT'', ''AF'']"
    by (simp add: expandable_def cell_of_def)
  from expand_df_cardinality[OF e, of "CHR '',''"] obtain out
    where out: "expand_df ?df [''ALT'', ''AF''] (CHR '','') = Inr out"
      and c: "columns out = (if rows ?df = [] then [''ALT'', ''AF'']
                else [''ALT'', ''AF''] @ sort_str [l \<leftarrow> columns ?df. l \<notin> set [''ALT'', ''AF'']])"
      and r: "rows out = concat (map (\<lambda>r. row_block (columns ?df) [''ALT'', ''AF''] (CHR '','')
                 (columns out) r
                 (zip_length (map (split_of (columns ?df) (CHR '','') r) [''ALT'', ''AF''])))
               (rows ?df))"
    by blast
  have c': "columns out = [''ALT'', ''AF'', ''POS'']"
    unfolding c by code_simp
  have "rows out = [[Str ''T'', Str ''0.4'', Str ''100''], [Str ''G'', Str ''0.1'', Str ''100''],
                   [Str ''C'', Str ''0.5'', Str ''7'']]"
    unfolding r c' by code_simp
  with c' have "out = \<lparr>columns = [''ALT'', ''AF'', ''POS''],
           rows = [[Str ''T'', Str ''0.4'', Str ''100''], [Str ''G'', Str ''0.1'', Str ''100''],
                   [Str ''C'', Str ''0.5'', Str ''7'']]\<rparr>"
    by (cases out) simp
  with out show ?thesis by simp
qed

section \<open>Expansion: split sequences of different lengths\<close>

text \<open>
  C4, as the claim states it, fails: a row whose expandable columns split into 2, 1
  and 2 pieces raises no error; one row comes out, cut to the shortest sequence.
\<close>

theorem expand_df_mismatch_counterexample:
  "expand_df
     \<lparr>columns = [''POS'', ''ALT'', ''AF'', ''TYPE''],
      rows = [[PyInt 100, Str ''T'', Str ''0.4,0.1'', Str ''snp,snp'']]\<rparr>
     [''TYPE'', ''ALT'', ''AF''] (CHR '','')
   = Inr \<lparr>columns = [''TYPE'', ''ALT'', ''AF'', ''POS''],
           rows = [[Str ''snp'', Str ''T'', Str ''0.4'', Str ''100'']]\<rparr>"
  by code_simp

text \<open>
  C4, amended. On every table that \<open>expand_df\<close> accepts, whatever the lengths of the
  split sequences of a row, expansion raises no error: the block of each source row
  has as many rows as its shortest split sequence has pieces, and its \<open>i\<close>-th row takes
  the \<open>i\<close>-th piece of each expandable column.
\<close>

theorem expand_df_truncates:
  assumes "expandable df cols"
  shows "\<exists>out. expand_df df cols sep = Inr out
      \<and> columns out = (if rows df = [] then cols
                        else cols @ sort_str [l \<leftarrow> columns df. l \<notin> set cols])
      \<and> rows out = concat (map (\<lambda>r. row_block (columns df) cols sep (columns out) r
                 (Min ((\<lambda>c. length (split_of (columns df) sep r c)) ` set cols))) (rows df))"
proof -
  from assms have ne: "cols \<noteq> []" by (simp add: expandable_def)
  have "zip_length (map (split_of (columns df) sep r) cols)
          = Min ((\<lambda>c. length (split_of (columns df) sep r c)) ` set cols)" for r
    using ne by (simp add: zip_length_Min image_image)
  with expand_df_blocks[OF assms, of sep] show ?thesis by simp
qed

theorem expand_df_truncates_witness:
  "expand_df
     \<lparr>columns = [''POS'', ''ALT'', ''AF''],
      rows = [[PyInt 100, Str ''T,G,C'', Str ''0.4,0.1'']]\<rparr>
     [''ALT'', ''AF''] (CHR '','')
   = Inr \<lparr>columns = [''ALT'', ''AF'', ''POS''],
           rows = [[Str ''T'', Str ''0.4'', Str ''100''], [Str ''G'', Str ''0.1'', Str ''100'']]\<rparr>"
proof -
  let ?df = "\<lparr>columns = [''POS'', ''ALT'', ''AF''],
      rows = [[PyInt 100, Str ''T,G,C'', Str ''0.4,0.1'']]\<rparr>"
  have e: "expandable ?df [''ALT'', ''AF'']"
    by (simp add: expandable_def cell_of_def)
  from expand_df_truncates[OF e, of "CHR '',''"] obtain out
    where out: "expand_df ?df [''ALT'', ''AF''] (CHR '','') = Inr out"
      and c: "columns out = (if rows ?df = [] then [''ALT'', ''AF'']
                else [''ALT'', ''AF''] @ sort_str [l \<leftarrow> columns ?df. l \<notin> set [''ALT'', ''AF'']])"
      and r: "rows out = concat (map (\<lambda>r. row_block (columns ?df) [''ALT'', ''AF''] (CHR '','')
                 (columns out) r
                 (Min ((\<lambda>c. length (split_of (columns ?df) (CHR '','') r c)) ` set [''ALT'', ''AF''])))
               (rows ?df))"
    by blast
  have c': "columns out = [''ALT'', ''AF'', ''POS'']"
    unfolding c by code_simp
  have "rows out = [[Str ''T'', Str ''0.4'', Str ''100''], [Str ''G'', Str ''0.1'', Str ''100'']]"
    unfolding r c' by code_simp
  with c' have "out = \<lparr>columns = [''ALT'', ''AF'', ''POS''],
           rows = [[Str ''T'', Str ''0.4'', Str ''100''], [Str ''G'', Str ''0.1'', Str ''100'']]\<rparr>"
    by (cases out) simp
  with out show ?thesis by simp
qed

section \<open>Expansion: single-valued rows\<close>

text \<open>
  C6. On every table that \<open>expand_df\<close> accepts, a source row in which no expandable
  cell contains the separator yields exactly one output row, and every cell of that
  row is the string form of the source cell under the same label; the output has
  the labels of the source table (each once) as soon as it has a row.
\<close>

theorem expand_df_identity:
  assumes "expandable df cols"
  shows "\<exists>out. expand_df df cols sep = Inr out
      \<and> (rows df \<noteq> [] \<longrightarrow> set (columns out) = set (columns df) \<and> distinct (columns out))
      \<and> rows out = concat (map (\<lambda>r. row_block (columns df) cols sep (columns out) r
                                 (zip_length (map (split_of (columns df) sep r) cols))) (rows df))
      \<and> (\<forall>r \<in> set (rows df).
            (\<forall>c \<in> set cols. sep \<notin> set (the_str (cell_of (columns df) r c))) \<longrightarrow>
            row_block (columns df) cols sep (columns out) r
              (zip_length (map (split_of (columns df) sep r) cols))
            = [map (\<lambda>l. Str (py_str (cell_of (columns df) r l))) (columns out)])"
proof -
  from assms have ne: "cols \<noteq> []" and dl: "distinct (columns df)" and dc: "distinct cols"
    and sub: "set cols \<subseteq> set (columns df)"
    and strs: "\<forall>r \<in> set (rows df). \<forall>c \<in> set cols. is_Str (cell_of (columns df) r c)"
    by (simp_all add: expandable_def)
  from expand_df_blocks[OF assms, of sep] obtain out
    where out: "expand_df df cols sep = Inr out"
      and c: "columns out = (if rows df = [] then cols
                else cols @ sort_str [l \<leftarrow> columns df. l \<notin> set cols])"
      and r: "rows out = concat (map (\<lambda>r. row_block (columns df) cols sep (columns out) r
                 (zip_length (map (split_of (columns df) sep r) cols))) (rows df))"
    by blast
  have cols_ok: "rows df \<noteq> [] \<longrightarrow> set (columns out) = set (columns df) \<and> distinct (columns out)"
    using expanded_columns[OF dl dc sub] by (simp add: c)
  have single: "row_block (columns df) cols sep (columns out) r
              (zip_length (map (split_of (columns df) sep r) cols))
            = [map (\<lambda>l. Str (py_str (cell_of (columns df) r l))) (columns out)]"
    if rin: "r \<in> set (rows df)"
      and nosep: "\<forall>c \<in> set cols. sep \<notin> set (the_str (cell_of (columns df) r c))" for r
  proof -
    have sp: "split_of (columns df) sep r c = [the_str (cell_of (columns df) r c)]"
      if "c \<in> set cols" for c
      using that nosep by (simp add: split_of_def py_split_no_sep)
    then have "zip_length (map (split_of (columns df) sep r) cols) = 1"
      using ne by (intro zip_length_same) auto
    moreover have "expansion (columns df) cols sep r 0 l = Str (py_str (cell_of (columns df) r l))"
      for l
    proof (cases "l \<in> set cols")
      case True
      with strs rin have "is_Str (cell_of (columns df) r l)" by simp
      then obtain s where "cell_of (columns df) r l = Str s" by (auto simp: is_Str_def)
      with True sp[OF True] show ?thesis by (simp add: expansion_def)
    next
      case False
      then show ?thesis by (simp add: expansion_def)
    qed
    ultimately show ?thesis by (simp add: row_block_def)
  qed
  from out cols_ok r single show ?thesis by blast
qed

theorem expand_df_identity_witness:
  "\<exists>out. expand_df
            \<lparr>columns = [''POS'', ''ALT'', ''AF''],
             rows = [[PyInt 100, Str ''T'', Str ''0.4'']]\<rparr>
            [''ALT'', ''AF''] (CHR '','') = Inr out
     \<and> rows out =
         [map (\<lambda>l. Str (py_str (cell_of [''POS'', ''ALT'', ''AF'']
                                   [PyInt 100, Str ''T'', Str ''0.4''] l))) (columns out)]"
proof -
  let ?df = "\<lparr>columns = [''POS'', ''ALT'', ''AF''],
      rows = [[PyInt 100, Str ''T'', Str ''0.4'']]\<rparr>"
  let ?r = "[PyInt 100, Str ''T'', Str ''0.4'']"
  have e: "expandable ?df [''ALT'', ''AF'']"
    by (simp add: expandable_def cell_of_def)
  from expand_df_identity[OF e, of "CHR '',''"] obtain out
    where out: "expand_df ?df [''ALT'', ''AF''] (CHR '','') = Inr out"
      and r: "rows out = concat (map (\<lambda>r. row_block (columns ?df) [''ALT'', ''AF''] (CHR '','')
                 (columns out) r
                 (zip_length (map (split_of (columns ?df) (CHR '','') r) [''ALT'', ''AF''])))
               (rows ?df))"
      and one: "(\<forall>c \<in> set [''ALT'', ''AF'']. CHR '','' \<notin> set (the_str (cell_of (columns ?df) ?r c))) \<longrightarrow>
            row_block (columns ?df) [''ALT'', ''AF''] (CHR '','') (columns out) ?r
              (zip_length (map (split_of (columns ?df) (CHR '','') ?r) [''ALT'', ''AF'']))
            = [map (\<lambda>l. Str (py_str (cell_of (columns ?df) ?r l))) (columns out)]"
    by auto
  have "\<forall>c \<in> set [''ALT'', ''AF'']. CHR '','' \<notin> set (the_str (cell_of (columns ?df) ?r c))"
    by (simp add: cell_of_def)
  with one r have "rows out = [map (\<lambda>l. Str (py_str (cell_of (columns ?df) ?r l))) (columns out)]"
    by simp
  with out show ?thesis by auto
qed

section \<open>Lemmas on columns and on the key loop\<close>





















section \<open>The composite key\<close>



section \<open>Lemmas on the merge\<close>

















section \<open>Merge completeness\<close>




section \<open>Lemmas on the decoder\<close>

lemma length_py_split: "length (py_split sep s) = Suc (length [c \<leftarrow> s. c = sep])"
proof (induction s)
  case Nil
  then show ?case by simp
next
  case (Cons c cs)
  have "py_split sep cs \<noteq> []" by (rule py_split_nonempty)
  then have "length (tl (py_split sep cs)) = length (py_split sep cs) - 1" by simp
  with Cons show ?case by (simp add: Let_def)
qed

lemma py_split_short_iff: "length (py_split sep s) < 2 \<longleftrightarrow> sep \<notin> set s"
  by (auto simp: length_py_split filter_empty_conv less_Suc_eq)

lemma value_of_index_error:
  "value_of key_value_sep x = Inl ListIndexError \<longleftrightarrow>
     (\<exists>e. x = Str e \<and> key_value_sep \<notin> set e)"
  by (cases x) (auto simp: value_of_def str_split_def py_split_short_iff)

lemma value_of_Inr:
  "value_of key_value_sep x = Inr y \<Longrightarrow> \<exists>e. x = Str e \<and> key_value_sep \<in> set e"
  by (cases x) (auto simp: value_of_def str_split_def py_split_short_iff split: if_splits)

lemma key_of_no_index_error: "key_of key_value_sep x \<noteq> Inl ListIndexError"
  by (cases x) (auto simp: key_of_def str_split_def)

lemma map_err_Inl: "map_err f xs = Inl e \<Longrightarrow> \<exists>x \<in> set xs. f x = Inl e"
  by (induction xs) (auto split: sum.splits)

lemma map_err_Inr: "map_err f xs = Inr ys \<Longrightarrow> \<forall>x \<in> set xs. \<exists>y. f x = Inr y"
  by (induction xs arbitrary: ys) (auto split: sum.splits)

lemma map_err_all: "\<forall>x \<in> set xs. f x = Inr (g x) \<Longrightarrow> map_err f xs = Inr (map g xs)"
  by (induction xs) auto

lemma transpose_cells:
  assumes "col \<in> set (transpose rs)" and "x \<in> set col"
  shows "\<exists>r \<in> set rs. x \<in> set r"
proof -
  from assms(1) obtain i where i: "i < length (transpose rs)" "col = transpose rs ! i"
    by (auto simp: in_set_conv_nth)
  with assms(2) have "x \<in> set (map (\<lambda>xs. xs ! i) (filter (\<lambda>ys. i < length ys) rs))"
    by (simp add: nth_transpose)
  then show ?thesis by (auto intro: nth_mem)
qed

lemma applymap_Inr:
  assumes "applymap f rs = Inr out"
  shows "\<forall>r \<in> set rs. \<forall>x \<in> set r. \<exists>y. f x = Inr y"
proof (intro ballI)
  fix r x assume r: "r \<in> set rs" and x: "x \<in> set r"
  from assms have "map_err (map_err f) rs = Inr out"
    by (auto simp: applymap_def split: sum.splits)
  from map_err_Inr[OF this] r obtain ys where "map_err f r = Inr ys" by blast
  from map_err_Inr[OF this] x show "\<exists>y. f x = Inr y" by blast
qed

lemma applymap_Inl:
  assumes "applymap f rs = Inl e"
  shows "\<exists>r \<in> set rs. \<exists>x \<in> set r. f x = Inl e"
proof (cases "map_err (map_err f) (transpose rs)")
  case (Inl e')
  with assms have "map_err (map_err f) (transpose rs) = Inl e" by (simp add: applymap_def)
  from map_err_Inl[OF this] obtain col
    where col: "col \<in> set (transpose rs)" and "map_err f col = Inl e" by blast
  from map_err_Inl[OF this(2)] obtain x where x: "x \<in> set col" and fx: "f x = Inl e" by blast
  from transpose_cells[OF col x] fx show ?thesis by blast
next
  case (Inr a)
  with assms have "map_err (map_err f) rs = Inl e" by (simp add: applymap_def)
  from map_err_Inl[OF this] obtain r where r: "r \<in> set rs" and "map_err f r = Inl e" by blast
  from map_err_Inl[OF this(2)] r show ?thesis by blast
qed

lemma applymap_all:
  assumes "\<forall>r \<in> set rs. \<forall>x \<in> set r. f x = Inr (g x)"
  shows "applymap f rs = Inr (map (map g) rs)"
proof -
  have rows_ok: "map_err (map_err f) rs = Inr (map (map g) rs)"
    using assms by (intro map_err_all) (auto intro: map_err_all)
  have "\<forall>col \<in> set (transpose rs). map_err f col = Inr (map g col)"
  proof
    fix col assume col: "col \<in> set (transpose rs)"
    have "\<forall>x \<in> set col. f x = Inr (g x)"
      using transpose_cells[OF col] assms by blast
    then show "map_err f col = Inr (map g col)" by (rule map_err_all)
  qed
  then have "map_err (map_err f) (transpose rs) = Inr (map (map g) (transpose rs))"
    by (rule map_err_all)
  with rows_ok show ?thesis by (simp add: applymap_def)
qed

lemma expand_has_elements:
  assumes "str_split_expand es vals = Inr sp" and "Str s \<in> set vals" and "e \<in> set (py_split es s)"
  shows "\<exists>row \<in> set sp. Str e \<in> set row"
proof -
  from assms(1) have sp: "sp = map (expand_cell es (split_width es vals)) vals"
    by (auto simp: str_split_expand_def split: if_splits)
  from assms(2) have "expand_cell es (split_width es vals) (Str s) \<in> set sp"
    unfolding sp by (simp add: rev_image_eqI)
  moreover have "Str e \<in> set (expand_cell es (split_width es vals) (Str s))"
    using assms(3) by (simp add: expand_cell_def)
  ultimately show ?thesis by blast
qed

lemma expand_cells_from:
  assumes "str_split_expand es vals = Inr sp" and "row \<in> set sp" and "Str e \<in> set row"
  shows "\<exists>s. Str s \<in> set vals \<and> e \<in> set (py_split es s)"
proof -
  from assms(1) have sp: "sp = map (expand_cell es (split_width es vals)) vals"
    by (auto simp: str_split_expand_def split: if_splits)
  with assms(2) obtain v where v: "v \<in> set vals"
    and row: "row = expand_cell es (split_width es vals) v"
    by auto
  show ?thesis
  proof (cases v)
    case (Str s)
    with row assms(3) have "e \<in> set (py_split es s)" by (auto simp: expand_cell_def)
    with Str v show ?thesis by blast
  qed (use row assms(3) in \<open>auto simp: expand_cell_def\<close>)
qed

lemma str_split_expand_error: "str_split_expand es vals = Inl e \<Longrightarrow> e = AttributeError"
  by (auto simp: str_split_expand_def split: if_splits)

lemma py_join_cons: "py_join sep ((c # x) # xs) = c # py_join sep (x # xs)"
  by (cases xs) simp_all

lemma py_join_split: "py_join [sep] (py_split sep s) = s"
proof (induction s)
  case Nil
  then show ?case by simp
next
  case (Cons c cs)
  obtain p ps where r: "py_split sep cs = p # ps"
    using py_split_nonempty[of sep cs] by (cases "py_split sep cs") auto
  with Cons show ?case by (simp add: py_join_cons)
qed

lemma two_parts:
  assumes "length (py_split sep e) = 2"
  shows "hd (py_split sep e) @ [sep] @ (py_split sep e ! 1) = e"
proof -
  from assms obtain a b where ab: "py_split sep e = [a, b]"
    by (cases "py_split sep e"; cases "tl (py_split sep e)") auto
  have "py_join [sep] (py_split sep e) = e" by (rule py_join_split)
  with ab show ?thesis by simp
qed

lemma two_parts_simp:
  "length (py_split sep e) = 2 \<Longrightarrow> hd (py_split sep e) @ sep # py_split sep e ! Suc 0 = e"
  using two_parts[of sep e] by simp

lemma encode_decoded_row:
  assumes "well_keyed key_value_sep elem_sep keys s"
  shows "encode_row key_value_sep elem_sep keys
           (map (\<lambda>e. Str (py_split key_value_sep e ! 1)) (py_split elem_sep s)) = s"
proof -
  let ?E = "py_split elem_sep s"
  from assms have two: "\<forall>e \<in> set ?E. length (py_split key_value_sep e) = 2"
    and keys: "keys = map (\<lambda>e. hd (py_split key_value_sep e)) ?E"
    by (auto simp: well_keyed_def list_all_iff)
  have "map (\<lambda>(k, x). k @ [key_value_sep] @ py_str x)
          (zip keys (map (\<lambda>e. Str (py_split key_value_sep e ! 1)) ?E))
        = map (\<lambda>e. hd (py_split key_value_sep e) @ [key_value_sep] @ (py_split key_value_sep e ! 1)) ?E"
    unfolding keys by (simp add: zip_map_map zip_same_conv_map comp_def)
  also have "\<dots> = map (\<lambda>e. e) ?E"
    using two by (intro map_cong[OF refl]) (simp add: two_parts_simp)
  finally show ?thesis by (simp add: encode_row_def py_join_split)
qed

lemma fold_max_const:
  "xs \<noteq> [] \<Longrightarrow> \<forall>x \<in> set xs. x = n \<Longrightarrow> fold max xs (0::nat) = n"
proof -
  assume ne: "xs \<noteq> []" and all: "\<forall>x \<in> set xs. x = n"
  then have "set xs = {n}" by (cases xs) auto
  then have "Max (set (0 # xs)) = n" by simp
  then show ?thesis by (simp only: Max.set_eq_fold)
qed

section \<open>The decoder is partial\<close>

text \<open>
  C10. For the packed column of a table: when \<open>convert_col_to_df\<close> returns a table,
  every element of every packed string of the column contains the key-value
  separator; the per-cell access \<open>x.split(key_value_sep)[1]\<close> on a string raises the
  list-index error exactly when the string lacks the separator; and when every
  element of every packed string contains the separator, the decoder never ends in
  that error.
\<close>

theorem convert_col_to_df_partial:
  assumes "getcol df col = Inr vals"
  shows "(\<forall>out. convert_col_to_df df col key_value_sep elem_sep = Inr out \<longrightarrow>
            all_elements_keyed key_value_sep elem_sep vals)
       \<and> (\<forall>e. value_of key_value_sep (Str e) = Inl ListIndexError \<longleftrightarrow> key_value_sep \<notin> set e)
       \<and> (all_elements_keyed key_value_sep elem_sep vals \<longrightarrow>
            convert_col_to_df df col key_value_sep elem_sep \<noteq> Inl ListIndexError)"
proof (intro conjI allI impI)
  fix out
  assume ok: "convert_col_to_df df col key_value_sep elem_sep = Inr out"
  with assms obtain sp cells where sp: "str_split_expand elem_sep vals = Inr sp"
    and am: "applymap (value_of key_value_sep) sp = Inr cells"
    by (auto simp: convert_col_to_df_def split: sum.splits list.splits)
  show "all_elements_keyed key_value_sep elem_sep vals"
    unfolding all_elements_keyed_def
  proof
    fix v assume v: "v \<in> set vals"
    show "case v of Str s \<Rightarrow> \<forall>e \<in> set (py_split elem_sep s). key_value_sep \<in> set e | _ \<Rightarrow> True"
    proof (cases v)
      case (Str s)
      have "key_value_sep \<in> set e" if e: "e \<in> set (py_split elem_sep s)" for e
      proof -
        from expand_has_elements[OF sp _ e] v Str obtain row
          where "row \<in> set sp" "Str e \<in> set row" by blast
        with applymap_Inr[OF am] obtain y where "value_of key_value_sep (Str e) = Inr y" by blast
        from value_of_Inr[OF this] show ?thesis by simp
      qed
      with Str show ?thesis by simp
    qed simp_all
  qed
next
  fix e
  show "value_of key_value_sep (Str e) = Inl ListIndexError \<longleftrightarrow> key_value_sep \<notin> set e"
    by (simp add: value_of_index_error)
next
  assume keyed: "all_elements_keyed key_value_sep elem_sep vals"
  show "convert_col_to_df df col key_value_sep elem_sep \<noteq> Inl ListIndexError"
  proof
    assume bad: "convert_col_to_df df col key_value_sep elem_sep = Inl ListIndexError"
    show False
    proof (cases "str_split_expand elem_sep vals")
      case (Inl e)
      with bad assms str_split_expand_error[OF Inl] show False
        by (simp add: convert_col_to_df_def)
    next
      case (Inr sp)
      show False
      proof (cases sp)
        case Nil
        with bad assms Inr show False by (simp add: convert_col_to_df_def)
      next
        case (Cons key_values rest)
        show False
        proof (cases "map_err (key_of key_value_sep) key_values")
          case (Inl e)
          from map_err_Inl[OF Inl] key_of_no_index_error have "e \<noteq> ListIndexError" by metis
          with bad assms Inr Cons Inl show False by (simp add: convert_col_to_df_def)
        next
          case header: (Inr header)
          with bad assms Inr Cons
          have "applymap (value_of key_value_sep) sp = Inl ListIndexError"
            by (simp add: convert_col_to_df_def split: sum.splits)
          from applymap_Inl[OF this] obtain row x where row: "row \<in> set sp" and x: "x \<in> set row"
            and "value_of key_value_sep x = Inl ListIndexError" by blast
          then obtain e where e: "x = Str e" "key_value_sep \<notin> set e"
            by (auto simp: value_of_index_error)
          from expand_cells_from[OF Inr row] x e(1) obtain s
            where "Str s \<in> set vals" "e \<in> set (py_split elem_sep s)" by blast
          with keyed have "key_value_sep \<in> set e"
            by (force simp: all_elements_keyed_def)
          with e(2) show False by simp
        qed
      qed
    qed
  qed
qed

theorem convert_col_to_df_partial_witness:
  "all_elements_keyed (CHR ''='') (CHR '';'') [Str ''DP=1;AO=2'']
   \<and> convert_col_to_df \<lparr>columns = [''INFO''], rows = [[Str ''DP=1;AO=2'']]\<rparr>
         ''INFO'' (CHR ''='') (CHR '';'') \<noteq> Inl ListIndexError
   \<and> value_of (CHR ''='') (Str ''AO'') = Inl ListIndexError"
proof -
  let ?df = "\<lparr>columns = [''INFO''], rows = [[Str ''DP=1;AO=2'']]\<rparr>"
  have g: "getcol ?df ''INFO'' = Inr [Str ''DP=1;AO=2'']" by (simp add: getcol_def)
  have c: "convert_col_to_df ?df ''INFO'' (CHR ''='') (CHR '';'')
             = Inr \<lparr>columns = [''DP'', ''AO''], rows = [[Str ''1'', Str ''2'']]\<rparr>"
    by code_simp
  note parts = convert_col_to_df_partial[OF g, of "CHR ''=''" "CHR '';''"]
  from parts c have k: "all_elements_keyed (CHR ''='') (CHR '';'') [Str ''DP=1;AO=2'']" by blast
  with parts have "convert_col_to_df ?df ''INFO'' (CHR ''='') (CHR '';'') \<noteq> Inl ListIndexError"
    by blast
  moreover from parts have "value_of (CHR ''='') (Str ''AO'') = Inl ListIndexError"
    by simp
  ultimately show ?thesis using k by blast
qed

section \<open>Decoding and re-encoding\<close>

text \<open>
  C5, as the claim states it, fails: the header comes from the first row only, so a
  later row with another key is re-encoded under the first row's key; the part of a
  value behind a second separator is lost; and an empty table cannot be decoded.
\<close>

theorem decode_encode_counterexample:
  "convert_col_to_df \<lparr>columns = [''INFO''], rows = [[Str ''DP=1''], [Str ''AO=2'']]\<rparr>
     ''INFO'' (CHR ''='') (CHR '';'')
     = Inr \<lparr>columns = [''DP''], rows = [[Str ''1''], [Str ''2'']]\<rparr>
   \<and> map (encode_row (CHR ''='') (CHR '';'') [''DP'']) [[Str ''1''], [Str ''2'']]
       = [''DP=1'', ''DP=2'']
   \<and> [''DP=1'', ''DP=2''] \<noteq> [''DP=1'', ''AO=2'']
   \<and> convert_col_to_df \<lparr>columns = [''INFO''], rows = [[Str ''DP=1=2'']]\<rparr>
         ''INFO'' (CHR ''='') (CHR '';'')
       = Inr \<lparr>columns = [''DP''], rows = [[Str ''1'']]\<rparr>
   \<and> map (encode_row (CHR ''='') (CHR '';'') [''DP'']) [[Str ''1'']] = [''DP=1'']
   \<and> [''DP=1''] \<noteq> [''DP=1=2'']
   \<and> convert_col_to_df \<lparr>columns = [''INFO''], rows = []\<rparr> ''INFO'' (CHR ''='') (CHR '';'')
       = Inl IlocIndexError"
  by code_simp

text \<open>
  C5, amended. For every non-empty table whose packed column holds strings
  \<open>k1=v1;...;kn=vn\<close> that all list the same keys in the same order and whose elements
  each hold the key-value separator exactly once, decoding succeeds, the decoded
  columns are these keys in this order, and re-encoding each decoded row with the
  same two separators and the decoded key order gives back the row's packed string.
\<close>

theorem decode_encode_roundtrip:
  assumes g: "getcol df col = Inr vals" and ne: "vals \<noteq> []"
    and wk: "\<forall>v \<in> set vals. is_Str v \<and> well_keyed key_value_sep elem_sep keys (the_str v)"
  shows "\<exists>out. convert_col_to_df df col key_value_sep elem_sep = Inr out
      \<and> columns out = keys
      \<and> map (encode_row key_value_sep elem_sep (columns out)) (rows out) = map the_str vals"
proof -
  let ?E = "\<lambda>v. py_split elem_sep (the_str v)"
  let ?val = "\<lambda>x. Str (py_split key_value_sep (the_str x) ! 1)"
  let ?sp = "map (\<lambda>v. map Str (?E v)) vals"
  have len: "length (?E v) = length keys" if "v \<in> set vals" for v
    using wk that by (auto simp: well_keyed_def)
  have str: "\<exists>s. v = Str s" if "v \<in> set vals" for v
    using wk that by (auto simp: is_Str_def)
  have "split_width elem_sep vals = length keys"
    unfolding split_width_def
  proof (rule fold_max_const)
    show "map (\<lambda>v. case v of Str s \<Rightarrow> length (py_split elem_sep s) | _ \<Rightarrow> 0) vals \<noteq> []"
      using ne by simp
    show "\<forall>x \<in> set (map (\<lambda>v. case v of Str s \<Rightarrow> length (py_split elem_sep s) | _ \<Rightarrow> 0) vals).
            x = length keys"
    proof
      fix x
      assume "x \<in> set (map (\<lambda>v. case v of Str s \<Rightarrow> length (py_split elem_sep s) | _ \<Rightarrow> 0) vals)"
      then obtain v where v: "v \<in> set vals"
        and x: "x = (case v of Str s \<Rightarrow> length (py_split elem_sep s) | _ \<Rightarrow> 0)" by auto
      from str[OF v] obtain s where "v = Str s" by blast
      with len[OF v] x show "x = length keys" by simp
    qed
  qed
  then have "map (expand_cell elem_sep (split_width elem_sep vals)) vals = ?sp"
  proof (intro map_cong[OF refl])
    fix v assume w: "split_width elem_sep vals = length keys" and v: "v \<in> set vals"
    from str[OF v] obtain s where "v = Str s" by blast
    with len[OF v] w
    show "expand_cell elem_sep (split_width elem_sep vals) v = map Str (?E v)"
      by (simp add: expand_cell_def)
  qed
  moreover from ne wk have "\<exists>v \<in> set vals. is_Str v" by (cases vals) auto
  ultimately have sp: "str_split_expand elem_sep vals = Inr ?sp"
    by (simp add: str_split_expand_def)
  from ne obtain v0 rest where vals: "vals = v0 # rest" by (cases vals) auto
  have two: "length (py_split key_value_sep e) = 2" if "v \<in> set vals" "e \<in> set (?E v)" for v e
    using wk that by (auto simp: well_keyed_def list_all_iff)
  have "map_err (key_of key_value_sep) (map Str (?E v0))
          = Inr (map (\<lambda>x. hd (py_split key_value_sep (the_str x))) (map Str (?E v0)))"
    by (rule map_err_all) (auto simp: key_of_def str_split_def)
  also have "map (\<lambda>x. hd (py_split key_value_sep (the_str x))) (map Str (?E v0)) = keys"
    using wk vals by (simp add: well_keyed_def comp_def)
  finally have header: "map_err (key_of key_value_sep) (map Str (?E v0)) = Inr keys" .
  have cells: "applymap (value_of key_value_sep) ?sp = Inr (map (map ?val) ?sp)"
  proof (rule applymap_all, intro ballI)
    fix r x assume "r \<in> set ?sp" and "x \<in> set r"
    then obtain v e where "v \<in> set vals" "e \<in> set (?E v)" "x = Str e" by auto
    with two show "value_of key_value_sep x = Inr (?val x)"
      by (simp add: value_of_def str_split_def)
  qed
  let ?out = "\<lparr>columns = keys, rows = map (map ?val) ?sp\<rparr>"
  have conv: "convert_col_to_df df col key_value_sep elem_sep = Inr ?out"
    using g sp header cells by (simp add: convert_col_to_df_def vals)
  have "map (encode_row key_value_sep elem_sep keys) (map (map ?val) ?sp) = map the_str vals"
  proof -
    have "encode_row key_value_sep elem_sep keys (map ?val (map Str (?E v))) = the_str v"
      if "v \<in> set vals" for v
      using encode_decoded_row[of key_value_sep elem_sep keys "the_str v"] wk that
      by (simp add: comp_def)
    then show ?thesis by (simp add: comp_def)
  qed
  with conv show ?thesis by simp
qed

theorem decode_encode_roundtrip_witness:
  "\<exists>out. convert_col_to_df
            \<lparr>columns = [''POS'', ''INFO''],
             rows = [[PyInt 100, Str ''DP=50;AF=0.4''], [PyInt 7, Str ''DP=7;AF=0.1'']]\<rparr>
            ''INFO'' (CHR ''='') (CHR '';'') = Inr out
     \<and> columns out = [''DP'', ''AF'']
     \<and> map (encode_row (CHR ''='') (CHR '';'') (columns out)) (rows out)
         = [''DP=50;AF=0.4'', ''DP=7;AF=0.1'']"
proof -
  let ?df = "\<lparr>columns = [''POS'', ''INFO''],
             rows = [[PyInt 100, Str ''DP=50;AF=0.4''], [PyInt 7, Str ''DP=7;AF=0.1'']]\<rparr>"
  let ?vals = "[Str ''DP=50;AF=0.4'', Str ''DP=7;AF=0.1'']"
  have g: "getcol ?df ''INFO'' = Inr ?vals" by (simp add: getcol_def)
  have ne: "?vals \<noteq> []" by simp
  have w1: "well_keyed (CHR ''='') (CHR '';'') [''DP'', ''AF''] ''DP=50;AF=0.4''" by code_simp
  have w2: "well_keyed (CHR ''='') (CHR '';'') [''DP'', ''AF''] ''DP=7;AF=0.1''" by code_simp
  have wk: "\<forall>v \<in> set ?vals. is_Str v \<and>
              well_keyed (CHR ''='') (CHR '';'') [''DP'', ''AF''] (the_str v)"
    using w1 w2 by simp
  from decode_encode_roundtrip[OF g ne wk] show ?thesis by simp
qed

end
